theory Spec2Isabelle
  imports Main "HOL-Library.Word"
begin

section \<open>The game-mode stack of \<^verbatim>\<open>src/engine/mode_manager.cpp\<close>\<close>

text \<open>
  The class \<^verbatim>\<open>ModeEngine\<close> owns two vectors of \<^verbatim>\<open>GameMode*\<close> (the live stack
  \<^verbatim>\<open>_game_stack\<close> and the pending buffer \<^verbatim>\<open>_push_stack\<close>), a pop counter and four
  flags. Its member functions are embedded as functions on a record of these members.
  Calls that leave the class (to the video and system managers, to a mode's own
  \<^verbatim>\<open>Reset\<close> and \<^verbatim>\<open>Update\<close>, \<^verbatim>\<open>delete\<close>, the warning stream) are recorded, in
  program order, in a trace that the record carries along.
\<close>

subsection \<open>Data\<close>

type_synonym uint8 = "8 word"
type_synonym uint32 = "32 word"

text \<open>\<^verbatim>\<open>const uint32 FADE_IN_OUT_TIME = 800;\<close>\<close>

definition FADE_IN_OUT_TIME :: uint32 where
  "FADE_IN_OUT_TIME = 800"

text \<open>
  Modelled from the spec: the constant \<^verbatim>\<open>MODE_MANAGER_DUMMY_MODE\<close> is declared in
  \<^verbatim>\<open>mode_manager.h\<close>, which is not among the sources; the spec calls it the sentinel
  "dummy" tag returned when no mode exists at a queried position. It is some fixed
  \<^verbatim>\<open>uint8\<close>; no general theorem below depends on which one.
\<close>

definition MODE_MANAGER_DUMMY_MODE :: uint8 where
  "MODE_MANAGER_DUMMY_MODE = 0"

text \<open>
  A \<^verbatim>\<open>GameMode*\<close> held by the manager points to a live object: the object's address
  and its \<^verbatim>\<open>mode_type\<close> member. The default constructor sets
  \<^verbatim>\<open>mode_type = MODE_MANAGER_DUMMY_MODE\<close>, the other one takes the tag as argument.
  The null pointer appears only as a return value of \<^verbatim>\<open>GetTop\<close> and \<^verbatim>\<open>Get\<close>, as
  \<open>None\<close>.
\<close>

record GameMode =
  addr :: nat
  mode_type :: uint8

definition GameMode_default :: "nat \<Rightarrow> GameMode" where
  "GameMode_default a = \<lparr>addr = a, mode_type = MODE_MANAGER_DUMMY_MODE\<rparr>"

definition GameMode_typed :: "nat \<Rightarrow> uint8 \<Rightarrow> GameMode" where
  "GameMode_typed a mt = \<lparr>addr = a, mode_type = mt\<rparr>"

text \<open>The calls that leave \<^verbatim>\<open>ModeEngine\<close>, in the order the trace records them.\<close>

datatype event =
    StartTransitionFadeOut uint32
  | PRINT_WARNING string
  | Delete GameMode
  | ExitGame
  | Reset GameMode
  | TransitionalFadeIn uint32
  | ExamineSystemTimers
  | InitializeUpdateTimer
  | ModeUpdate GameMode

fun is_Reset :: "event \<Rightarrow> bool" where
  "is_Reset (Reset gm) = True"
| "is_Reset e = False"

text \<open>
  The members of \<^verbatim>\<open>ModeEngine\<close>. A vector is a list whose head is index 0 (the bottom
  of the stack) and whose last element is \<^verbatim>\<open>back()\<close> (the top).
\<close>

record ModeEngine =
  game_stack :: "GameMode list"
  push_stack :: "GameMode list"
  pop_count :: uint32
  state_change :: bool
  fade_out :: bool
  fade_out_finished :: bool
  fade_in :: bool
  trace :: "event list"

text \<open>
  The constructor sets \<^verbatim>\<open>_pop_count\<close>, \<^verbatim>\<open>_state_change\<close>, \<^verbatim>\<open>_fade_out\<close> and
  \<^verbatim>\<open>_fade_out_finished\<close>; it leaves \<^verbatim>\<open>_fade_in\<close> uninitialised, so its first
  value is an argument here.
\<close>

definition ModeEngine_ctor :: "bool \<Rightarrow> ModeEngine" where
  "ModeEngine_ctor fi =
     \<lparr>game_stack = [], push_stack = [], pop_count = 0, state_change = False,
      fade_out = False, fade_out_finished = False, fade_in = fi, trace = []\<rparr>"

text \<open>
  The two queries \<^verbatim>\<open>Update\<close> makes of the video manager. Their answers belong to
  the video engine, so every call of \<^verbatim>\<open>Update\<close> takes them as input.
\<close>

record VideoEngine =
  IsLastFadeTransitional :: bool
  IsFading :: bool

text \<open>
  What can go wrong: \<^verbatim>\<open>std::vector::at\<close> throws \<^verbatim>\<open>std::out_of_range\<close>, and
  \<^verbatim>\<open>back()\<close> of an empty vector is undefined behaviour.
\<close>

datatype error = out_of_range | back_of_empty_vector

definition vector_at :: "'a list \<Rightarrow> nat \<Rightarrow> error + 'a" where
  "vector_at xs n = (if n < length xs then Inr (xs ! n) else Inl out_of_range)"

subsection \<open>Requests\<close>

definition Pop :: "bool \<Rightarrow> bool \<Rightarrow> ModeEngine \<Rightarrow> ModeEngine" where
  "Pop fo fi s =
     (let s1 = s\<lparr>fade_in := fi, pop_count := pop_count s + 1, state_change := True\<rparr>
      in if fo
         then s1\<lparr>trace := trace s1 @ [StartTransitionFadeOut FADE_IN_OUT_TIME],
                 fade_out := True, fade_out_finished := False\<rparr>
         else s1\<lparr>fade_out := False, fade_out_finished := True\<rparr>)"

definition PopAll :: "ModeEngine \<Rightarrow> ModeEngine" where
  "PopAll s = s\<lparr>pop_count := of_nat (length (game_stack s))\<rparr>"

definition Push :: "GameMode \<Rightarrow> bool \<Rightarrow> bool \<Rightarrow> ModeEngine \<Rightarrow> ModeEngine" where
  "Push gm fo fi s =
     (let s1 = s\<lparr>push_stack := push_stack s @ [gm], state_change := True, fade_in := fi\<rparr>
      in if fo
         then s1\<lparr>trace := trace s1 @ [StartTransitionFadeOut FADE_IN_OUT_TIME],
                 fade_out := True, fade_out_finished := False\<rparr>
         else s1\<lparr>fade_out := False, fade_out_finished := True\<rparr>)"

subsection \<open>Lookups\<close>

text \<open>\<^verbatim>\<open>uint8 GetGameType()\<close>\<close>

definition GetGameType :: "ModeEngine \<Rightarrow> uint8" where
  "GetGameType s =
     (if game_stack s = [] then MODE_MANAGER_DUMMY_MODE
      else mode_type (last (game_stack s)))"

text \<open>
  \<^verbatim>\<open>uint8 GetGameType(uint32 index)\<close>. The comparison and the subtraction are done
  in \<^verbatim>\<open>size_t\<close>; behind the guard the subtraction cannot wrap.
\<close>

definition GetGameType_index :: "ModeEngine \<Rightarrow> uint32 \<Rightarrow> error + uint8" where
  "GetGameType_index s index =
     (if length (game_stack s) < unat index then Inr MODE_MANAGER_DUMMY_MODE
      else (case vector_at (game_stack s) (length (game_stack s) - unat index) of
              Inl e \<Rightarrow> Inl e
            | Inr gm \<Rightarrow> Inr (mode_type gm)))"

definition GetTop :: "ModeEngine \<Rightarrow> GameMode option" where
  "GetTop s = (if game_stack s = [] then None else Some (last (game_stack s)))"

definition Get :: "ModeEngine \<Rightarrow> uint32 \<Rightarrow> error + GameMode option" where
  "Get s index =
     (if length (game_stack s) < unat index then Inr None
      else (case vector_at (game_stack s) (length (game_stack s) - unat index) of
              Inl e \<Rightarrow> Inl e
            | Inr gm \<Rightarrow> Inr (Some gm)))"

subsection \<open>The reconciliation in \<^verbatim>\<open>Update\<close>\<close>

text \<open>The first loop: \<^verbatim>\<open>while (_pop_count != 0) { ... }\<close>.\<close>

function Update_pop_loop :: "ModeEngine \<Rightarrow> ModeEngine" where
  "Update_pop_loop s =
     (if pop_count s \<noteq> 0
      then (if game_stack s = []
            then s\<lparr>trace := trace s @
                      [PRINT_WARNING ''Tried to pop off more game modes than were on the stack!''],
                    pop_count := 0\<rparr>
            else Update_pop_loop
                   (s\<lparr>trace := trace s @ [Delete (last (game_stack s))],
                      game_stack := butlast (game_stack s),
                      pop_count := pop_count s - 1\<rparr>))
      else s)"
  by pat_completeness auto
termination
  by (relation "measure (\<lambda>s. unat (pop_count s))") (auto simp: unat_minus_one unat_gt_0)

text \<open>The second loop: \<^verbatim>\<open>while (_push_stack.size() != 0) { ... }\<close>.\<close>

function Update_push_loop :: "ModeEngine \<Rightarrow> ModeEngine" where
  "Update_push_loop s =
     (if length (push_stack s) \<noteq> 0
      then Update_push_loop
             (s\<lparr>game_stack := game_stack s @ [last (push_stack s)],
                push_stack := butlast (push_stack s)\<rparr>)
      else s)"
  by pat_completeness auto
termination
  by (relation "measure (\<lambda>s. length (push_stack s))") auto

text \<open>
  The body of \<^verbatim>\<open>if (_fade_out_finished && _state_change)\<close>.

  Modelled from the spec: \<^verbatim>\<open>SystemManager->ExitGame()\<close> is defined outside the
  sources; the spec describes it as a request (\<^verbatim>\<open>RequestExit()\<close>, "signal application
  termination"), so it is an event after which control returns to \<^verbatim>\<open>Update\<close>. The
  function has no \<^verbatim>\<open>return\<close> after it: the next statement is
  \<^verbatim>\<open>_game_stack.back()->Reset()\<close>, which on an empty vector is undefined
  behaviour; the result then is \<open>Inl\<close> with the state reached.
\<close>

definition Update_commit :: "ModeEngine \<Rightarrow> (error \<times> ModeEngine) + ModeEngine" where
  "Update_commit s =
     (let s1 = Update_pop_loop s;
          s2 = Update_push_loop s1;
          s3 = (if game_stack s2 = []
                then s2\<lparr>trace := trace s2 @
                          [PRINT_WARNING ''game stack is empty, exiting application'', ExitGame]\<rparr>
                else s2)
      in if game_stack s3 = [] then Inl (back_of_empty_vector, s3)
         else Inr (s3\<lparr>trace := trace s3 @
                         [Reset (last (game_stack s3)),
                          TransitionalFadeIn (if fade_in s3 then FADE_IN_OUT_TIME else 0),
                          ExamineSystemTimers, InitializeUpdateTimer],
                       state_change := False, fade_out_finished := False\<rparr>))"

text \<open>
  \<^verbatim>\<open>void ModeEngine::Update()\<close>: the fade check, the commit when it is due, and the
  dispatch to the top mode. What the mode does in its own \<^verbatim>\<open>Update\<close> is the
  mode's business; a request it issues there is a call of \<open>Push\<close> or \<open>Pop\<close> on the
  state returned here.
\<close>

definition Update :: "VideoEngine \<Rightarrow> ModeEngine \<Rightarrow> (error \<times> ModeEngine) + ModeEngine" where
  "Update v s =
     (let s1 = (if fade_out s \<and> IsLastFadeTransitional v \<and> \<not> IsFading v
                then s\<lparr>fade_out := False, fade_out_finished := True\<rparr>
                else s)
      in case (if fade_out_finished s1 \<and> state_change s1 then Update_commit s1 else Inr s1) of
           Inl e \<Rightarrow> Inl e
         | Inr s2 \<Rightarrow>
             Inr (if game_stack s2 \<noteq> []
                  then s2\<lparr>trace := trace s2 @ [ModeUpdate (last (game_stack s2))]\<rparr>
                  else s2))"

subsection \<open>Frames and batches of requests\<close>

text \<open>
  The frame driver calls \<^verbatim>\<open>Update\<close> once per frame; successive frames, each with
  the video engine's answers of that frame, stop at the first one that does not return.
\<close>

fun Update_frames :: "VideoEngine list \<Rightarrow> ModeEngine \<Rightarrow> (error \<times> ModeEngine) + ModeEngine" where
  "Update_frames [] s = Inr s"
| "Update_frames (v # vs) s =
     (case Update v s of Inl e \<Rightarrow> Inl e | Inr s' \<Rightarrow> Update_frames vs s')"

text \<open>A call of \<^verbatim>\<open>Push\<close> or \<^verbatim>\<open>Pop\<close> with its arguments, and a sequence of them.\<close>

datatype request = PushRequest GameMode bool bool | PopRequest bool bool

fun issue :: "request \<Rightarrow> ModeEngine \<Rightarrow> ModeEngine" where
  "issue (PushRequest gm fo fi) s = Push gm fo fi s"
| "issue (PopRequest fo fi) s = Pop fo fi s"

fun request_fade_out :: "request \<Rightarrow> bool" where
  "request_fade_out (PushRequest gm fo fi) = fo"
| "request_fade_out (PopRequest fo fi) = fo"

fun request_fade_in :: "request \<Rightarrow> bool" where
  "request_fade_in (PushRequest gm fo fi) = fi"
| "request_fade_in (PopRequest fo fi) = fi"

definition issue_all :: "request list \<Rightarrow> ModeEngine \<Rightarrow> ModeEngine" where
  "issue_all rs s = fold issue rs s"

text \<open>
  The modes a sequence of requests enqueues, in call order, and the number of pops it
  asks for.
\<close>

fun requested_modes :: "request list \<Rightarrow> GameMode list" where
  "requested_modes [] = []"
| "requested_modes (PushRequest gm fo fi # rs) = gm # requested_modes rs"
| "requested_modes (PopRequest fo fi # rs) = requested_modes rs"

fun requested_pops :: "request list \<Rightarrow> nat" where
  "requested_pops [] = 0"
| "requested_pops (PushRequest gm fo fi # rs) = requested_pops rs"
| "requested_pops (PopRequest fo fi # rs) = Suc (requested_pops rs)"

text \<open>
  The condition under which a call of \<^verbatim>\<open>Update\<close> enters the commit: the test
  \<^verbatim>\<open>_fade_out_finished && _state_change\<close>, read after the fade check before it.
\<close>

definition commits :: "VideoEngine \<Rightarrow> ModeEngine \<Rightarrow> bool" where
  "commits v s =
     ((fade_out_finished s \<or> (fade_out s \<and> IsLastFadeTransitional v \<and> \<not> IsFading v))
      \<and> state_change s)"

text \<open>The state of the engine that a result carries, returned or not.\<close>

fun engine_of :: "(error \<times> ModeEngine) + ModeEngine \<Rightarrow> ModeEngine" where
  "engine_of (Inl (e, s)) = s"
| "engine_of (Inr s) = s"

subsection \<open>Closed forms\<close>

text \<open>
  What the statements below compare the code with. The first statement of
  \<^verbatim>\<open>Update\<close>, the fade check:
\<close>

definition fade_checked :: "VideoEngine \<Rightarrow> ModeEngine \<Rightarrow> ModeEngine" where
  "fade_checked v s =
     (if fade_out s \<and> IsLastFadeTransitional v \<and> \<not> IsFading v
      then s\<lparr>fade_out := False, fade_out_finished := True\<rparr> else s)"

text \<open>
  The live stack a commit arrives at, written without loops: the modes that the pop
  counter leaves, then the pending buffer from its back to its front.
\<close>

definition stack_after :: "ModeEngine \<Rightarrow> GameMode list" where
  "stack_after s =
     take (length (game_stack s) - unat (pop_count s)) (game_stack s) @ rev (push_stack s)"

text \<open>The calls the first loop makes: the deletions, top first, then the warning if any.\<close>

definition pop_events :: "ModeEngine \<Rightarrow> event list" where
  "pop_events s =
     map Delete (rev (drop (length (game_stack s) - unat (pop_count s)) (game_stack s))) @
     (if length (game_stack s) < unat (pop_count s)
      then [PRINT_WARNING ''Tried to pop off more game modes than were on the stack!'']
      else [])"

subsection \<open>Concrete inputs\<close>

text \<open>
  Three modes with distinct addresses and tags, a mode built by the default
  constructor, and an engine at rest (nothing pending, all flags clear, empty trace)
  with a given live stack.
\<close>

definition mode_X :: GameMode where "mode_X = GameMode_typed 1 1"
definition mode_A :: GameMode where "mode_A = GameMode_typed 2 2"
definition mode_B :: GameMode where "mode_B = GameMode_typed 3 3"
definition mode_D :: GameMode where "mode_D = GameMode_default 4"

definition engine_at_rest :: "GameMode list \<Rightarrow> ModeEngine" where
  "engine_at_rest gs = (ModeEngine_ctor False)\<lparr>game_stack := gs\<rparr>"

definition video_fading :: VideoEngine where
  "video_fading = \<lparr>IsLastFadeTransitional = True, IsFading = True\<rparr>"

definition video_idle :: VideoEngine where
  "video_idle = \<lparr>IsLastFadeTransitional = True, IsFading = False\<rparr>"

section \<open>Properties\<close>

subsection \<open>The two loops and the commit, in closed form\<close>


lemma take_butlast_sub:
  "0 < k \<Longrightarrow> xs \<noteq> [] \<Longrightarrow> take (length (butlast xs) - (k - 1)) (butlast xs) = take (length xs - k) xs"
  by (cases xs rule: rev_cases) auto

lemma drop_butlast_sub:
  "0 < k \<Longrightarrow> xs \<noteq> [] \<Longrightarrow>
     last xs # rev (drop (length (butlast xs) - (k - 1)) (butlast xs)) = rev (drop (length xs - k) xs)"
  by (cases xs rule: rev_cases) auto

lemma Update_pop_loop_eq:
  "Update_pop_loop s =
     s\<lparr>trace := trace s @ map Delete (rev (drop (length (game_stack s) - unat (pop_count s)) (game_stack s)))
          @ (if length (game_stack s) < unat (pop_count s)
             then [PRINT_WARNING ''Tried to pop off more game modes than were on the stack!'']
             else []),
       game_stack := take (length (game_stack s) - unat (pop_count s)) (game_stack s),
       pop_count := 0\<rparr>"
proof (induction s rule: Update_pop_loop.induct)
  case (1 s)
  show ?case
  proof (cases "pop_count s = 0")
    case True
    then show ?thesis by simp
  next
    case nz: False
    then have pos: "0 < unat (pop_count s)" by (simp add: unat_gt_0)
    show ?thesis
    proof (cases "game_stack s = []")
      case True
      with nz pos show ?thesis by simp
    next
      case False
      have lt: "length (game_stack s) - Suc 0 < unat (pop_count s) - Suc 0 \<longleftrightarrow> length (game_stack s) < unat (pop_count s)"
        using pos False by (cases "game_stack s") auto
      from nz False have "Update_pop_loop s = Update_pop_loop
                   (s\<lparr>trace := trace s @ [Delete (last (game_stack s))],
                      game_stack := butlast (game_stack s),
                      pop_count := pop_count s - 1\<rparr>)" by simp
      also have "\<dots> = s\<lparr>trace := trace s @ map Delete (rev (drop (length (game_stack s) - unat (pop_count s)) (game_stack s)))
          @ (if length (game_stack s) < unat (pop_count s)
             then [PRINT_WARNING ''Tried to pop off more game modes than were on the stack!'']
             else []),
       game_stack := take (length (game_stack s) - unat (pop_count s)) (game_stack s),
       pop_count := 0\<rparr>"
        using "1.IH"[OF nz False] take_butlast_sub[OF pos False] drop_butlast_sub[OF pos False, symmetric] lt
        by (simp add: unat_minus_one nz del: Update_pop_loop.simps)
      finally show ?thesis .
    qed
  qed
qed

lemma Update_push_loop_eq:
  "Update_push_loop s = s\<lparr>game_stack := game_stack s @ rev (push_stack s), push_stack := []\<rparr>"
proof (induction s rule: Update_push_loop.induct)
  case (1 s)
  show ?case
  proof (cases "push_stack s = []")
    case True
    then show ?thesis by simp
  next
    case False
    then obtain ps p where ps: "push_stack s = ps @ [p]" by (cases "push_stack s" rule: rev_cases) auto
    from False have "Update_push_loop s = Update_push_loop
             (s\<lparr>game_stack := game_stack s @ [last (push_stack s)],
                push_stack := butlast (push_stack s)\<rparr>)" by simp
    also have "\<dots> = s\<lparr>game_stack := game_stack s @ rev (push_stack s), push_stack := []\<rparr>"
      using "1.IH" False ps by (simp del: Update_push_loop.simps)
    finally show ?thesis .
  qed
qed

lemma Update_commit_Inr:
  "stack_after s \<noteq> [] \<Longrightarrow>
   Update_commit s =
     Inr (s\<lparr>trace := trace s @ pop_events s @
                 [Reset (last (stack_after s)),
                  TransitionalFadeIn (if fade_in s then FADE_IN_OUT_TIME else 0),
                  ExamineSystemTimers, InitializeUpdateTimer],
            game_stack := stack_after s, push_stack := [], pop_count := 0,
            state_change := False, fade_out_finished := False\<rparr>)"
  by (simp add: Update_commit_def Update_pop_loop_eq Update_push_loop_eq stack_after_def
      pop_events_def Let_def del: Update_pop_loop.simps Update_push_loop.simps)

lemma Update_commit_Inl:
  "stack_after s = [] \<Longrightarrow>
   Update_commit s =
     Inl (back_of_empty_vector,
          s\<lparr>trace := trace s @ pop_events s @
                 [PRINT_WARNING ''game stack is empty, exiting application'', ExitGame],
            game_stack := [], push_stack := [], pop_count := 0\<rparr>)"
  by (simp add: Update_commit_def Update_pop_loop_eq Update_push_loop_eq stack_after_def
      pop_events_def Let_def del: Update_pop_loop.simps Update_push_loop.simps)

lemma fade_checked_fields [simp]:
  "game_stack (fade_checked v s) = game_stack s"
  "push_stack (fade_checked v s) = push_stack s"
  "pop_count (fade_checked v s) = pop_count s"
  "trace (fade_checked v s) = trace s"
  "fade_in (fade_checked v s) = fade_in s"
  "state_change (fade_checked v s) = state_change s"
  "stack_after (fade_checked v s) = stack_after s"
  "pop_events (fade_checked v s) = pop_events s"
  by (simp_all add: fade_checked_def stack_after_def pop_events_def)

lemma Update_idle:
  "\<not> commits v s \<Longrightarrow>
   Update v s =
     Inr ((fade_checked v s)\<lparr>trace := trace s @
            (if game_stack s = [] then [] else [ModeUpdate (last (game_stack s))])\<rparr>)"
  by (auto simp: Update_def commits_def fade_checked_def Let_def)

lemma Update_commits_Inr:
  "commits v s \<Longrightarrow> stack_after s \<noteq> [] \<Longrightarrow>
   Update v s =
     Inr ((fade_checked v s)\<lparr>trace := trace s @ pop_events s @
                 [Reset (last (stack_after s)),
                  TransitionalFadeIn (if fade_in s then FADE_IN_OUT_TIME else 0),
                  ExamineSystemTimers, InitializeUpdateTimer,
                  ModeUpdate (last (stack_after s))],
            game_stack := stack_after s, push_stack := [], pop_count := 0,
            state_change := False, fade_out_finished := False\<rparr>)"
proof -
  assume c: "commits v s" and ne: "stack_after s \<noteq> []"
  have t: "fade_out_finished (fade_checked v s) \<and> state_change (fade_checked v s)"
    using c by (auto simp: commits_def fade_checked_def)
  have ne': "stack_after (fade_checked v s) \<noteq> []" using ne by simp
  have "Update v s = (case Update_commit (fade_checked v s) of
           Inl e \<Rightarrow> Inl e
         | Inr s2 \<Rightarrow>
             Inr (if game_stack s2 \<noteq> []
                  then s2\<lparr>trace := trace s2 @ [ModeUpdate (last (game_stack s2))]\<rparr>
                  else s2))"
    using t by (simp add: Update_def fade_checked_def Let_def)
  then show ?thesis
    using ne by (simp add: Update_commit_Inr[OF ne'])
qed

lemma Update_commits_Inl:
  "commits v s \<Longrightarrow> stack_after s = [] \<Longrightarrow>
   Update v s =
     Inl (back_of_empty_vector,
          (fade_checked v s)\<lparr>trace := trace s @ pop_events s @
                 [PRINT_WARNING ''game stack is empty, exiting application'', ExitGame],
            game_stack := [], push_stack := [], pop_count := 0\<rparr>)"
proof -
  assume c: "commits v s" and e: "stack_after s = []"
  have t: "fade_out_finished (fade_checked v s) \<and> state_change (fade_checked v s)"
    using c by (auto simp: commits_def fade_checked_def)
  have e': "stack_after (fade_checked v s) = []" using e by simp
  have "Update v s = (case Update_commit (fade_checked v s) of
           Inl e \<Rightarrow> Inl e
         | Inr s2 \<Rightarrow>
             Inr (if game_stack s2 \<noteq> []
                  then s2\<lparr>trace := trace s2 @ [ModeUpdate (last (game_stack s2))]\<rparr>
                  else s2))"
    using t by (simp add: Update_def fade_checked_def Let_def)
  then show ?thesis
    by (simp add: Update_commit_Inl[OF e'])
qed

subsection \<open>Fields after a request\<close>

lemma engine_at_rest_fields [simp]:
  "game_stack (engine_at_rest gs) = gs"
  "push_stack (engine_at_rest gs) = []"
  "pop_count (engine_at_rest gs) = 0"
  "\<not> state_change (engine_at_rest gs)"
  "\<not> fade_out (engine_at_rest gs)"
  "\<not> fade_out_finished (engine_at_rest gs)"
  "trace (engine_at_rest gs) = []"
  by (simp_all add: engine_at_rest_def ModeEngine_ctor_def)

lemma Push_fields [simp]:
  "game_stack (Push gm fo fi s) = game_stack s"
  "push_stack (Push gm fo fi s) = push_stack s @ [gm]"
  "pop_count (Push gm fo fi s) = pop_count s"
  "state_change (Push gm fo fi s)"
  "fade_out (Push gm fo fi s) = fo"
  "fade_out_finished (Push gm fo fi s) = (\<not> fo)"
  "fade_in (Push gm fo fi s) = fi"
  by (simp_all add: Push_def Let_def)

lemma Pop_fields [simp]:
  "game_stack (Pop fo fi s) = game_stack s"
  "push_stack (Pop fo fi s) = push_stack s"
  "pop_count (Pop fo fi s) = pop_count s + 1"
  "state_change (Pop fo fi s)"
  "fade_out (Pop fo fi s) = fo"
  "fade_out_finished (Pop fo fi s) = (\<not> fo)"
  "fade_in (Pop fo fi s) = fi"
  by (simp_all add: Pop_def Let_def)

lemma issue_fields [simp]:
  "game_stack (issue r s) = game_stack s"
  "push_stack (issue r s) = push_stack s @ requested_modes [r]"
  "pop_count (issue r s) = pop_count s + of_nat (requested_pops [r])"
  "state_change (issue r s)"
  "fade_out (issue r s) = request_fade_out r"
  "fade_out_finished (issue r s) = (\<not> request_fade_out r)"
  "fade_in (issue r s) = request_fade_in r"
  by (cases r; simp)+

lemma requested_modes_append:
  "requested_modes (rs @ rs') = requested_modes rs @ requested_modes rs'"
  by (induction rs rule: requested_modes.induct) simp_all

lemma requested_pops_append:
  "requested_pops (rs @ rs') = requested_pops rs + requested_pops rs'"
  by (induction rs rule: requested_pops.induct) simp_all

lemma issue_all_snoc: "issue_all (rs @ [r]) s = issue r (issue_all rs s)"
  by (simp add: issue_all_def)

lemma issue_all_fields:
  "game_stack (issue_all rs s) = game_stack s \<and>
   push_stack (issue_all rs s) = push_stack s @ requested_modes rs \<and>
   pop_count (issue_all rs s) = pop_count s + of_nat (requested_pops rs)"
proof (induction rs rule: rev_induct)
  case Nil
  show ?case by (simp add: issue_all_def)
next
  case (snoc r rs)
  then show ?case
    by (simp add: issue_all_snoc requested_modes_append requested_pops_append)
qed

text \<open>
  A batch of pops without fade-out adds their number to the counter, in \<^verbatim>\<open>uint32\<close>:
  4294967296 of them bring the counter of an engine at rest back to 0.
\<close>

lemma issue_all_pops:
  "issue_all (replicate (Suc n) (PopRequest False fi)) s =
     s\<lparr>fade_in := fi, pop_count := pop_count s + of_nat (Suc n), state_change := True,
       fade_out := False, fade_out_finished := True\<rparr>"
proof (induction n arbitrary: s)
  case 0
  show ?case by (simp add: issue_all_def Pop_def Let_def)
next
  case (Suc n)
  have "issue_all (replicate (Suc (Suc n)) (PopRequest False fi)) s =
        issue_all (replicate (Suc n) (PopRequest False fi)) (Pop False fi s)"
    by (simp add: issue_all_def)
  also have "\<dots> = s\<lparr>fade_in := fi, pop_count := pop_count s + of_nat (Suc (Suc n)),
       state_change := True, fade_out := False, fade_out_finished := True\<rparr>"
    unfolding Suc.IH by (simp add: Pop_def Let_def algebra_simps)
  finally show ?case .
qed

lemma wrapped_pops:
  "issue_all (replicate 4294967296 (PopRequest False False)) (engine_at_rest gs) =
     \<lparr>game_stack = gs, push_stack = [], pop_count = 0, state_change = True,
      fade_out = False, fade_out_finished = True, fade_in = False, trace = []\<rparr>"
proof -
  have n: "(4294967296::nat) = Suc 4294967295" by simp
  have w: "(of_nat (Suc 4294967295) :: uint32) = 0"
    unfolding n[symmetric] by simp
  show ?thesis
    unfolding n issue_all_pops w
    by (simp add: engine_at_rest_def ModeEngine_ctor_def)
qed

subsection \<open>Frames that commit and frames that wait\<close>

lemma Update_stack_when_commits:
  "commits v s \<Longrightarrow> game_stack (engine_of (Update v s)) = stack_after s"
proof (cases "stack_after s = []")
  case True
  assume "commits v s"
  from Update_commits_Inl[OF this True] True show ?thesis by simp
next
  case False
  assume "commits v s"
  from Update_commits_Inr[OF this False] show ?thesis by simp
qed

lemma no_Reset_in_pop_events: "filter is_Reset (pop_events s) = []"
  by (simp add: pop_events_def filter_empty_conv)

lemma Update_waits_while_fading:
  assumes "\<not> fade_out_finished s" and "IsFading v"
  shows "\<exists>s'. Update v s = Inr s' \<and> game_stack s' = game_stack s \<and> \<not> fade_out_finished s'"
proof -
  have nc: "\<not> commits v s" using assms by (simp add: commits_def)
  show ?thesis using Update_idle[OF nc] assms by (simp add: fade_checked_def)
qed

lemma Update_frames_wait_while_fading:
  "\<not> fade_out_finished s \<Longrightarrow> \<forall>v \<in> set vs. IsFading v \<Longrightarrow>
   \<exists>s'. Update_frames vs s = Inr s' \<and> game_stack s' = game_stack s"
proof (induction vs arbitrary: s)
  case Nil
  then show ?case by simp
next
  case (Cons v vs)
  from Cons.prems obtain s1 where
    s1: "Update v s = Inr s1" "game_stack s1 = game_stack s" "\<not> fade_out_finished s1"
    using Update_waits_while_fading[of s v] by auto
  from Cons.IH[OF s1(3)] Cons.prems(2) obtain s' where
    "Update_frames vs s1 = Inr s'" "game_stack s' = game_stack s1" by auto
  with s1 show ?case by simp
qed

lemma GetTop_cong: "game_stack s' = game_stack s \<Longrightarrow> GetTop s' = GetTop s"
  by (simp add: GetTop_def)

text \<open>
  The definitions that evaluating a concrete run unfolds.
\<close>

lemmas concrete_defs =
  mode_X_def mode_A_def mode_B_def mode_D_def GameMode_typed_def GameMode_default_def
  engine_at_rest_def ModeEngine_ctor_def video_idle_def video_fading_def
  Push_def Pop_def PopAll_def Update_def Update_commit_def Let_def FADE_IN_OUT_TIME_def
  MODE_MANAGER_DUMMY_MODE_def

section \<open>The claims\<close>

subsection \<open>C1: the order in which pending pushes reach the live stack\<close>

text \<open>
  C1, as stated, fails. The claim: the reconciliation moves the pending entries onto the
  live stack in the order in which they were enqueued, the most recently pushed entry
  becoming the new top, so that after \<^verbatim>\<open>Push(A); Pop(); Push(B); Update()\<close> the top is
  B. On a live stack holding X alone, these four calls (no fade-out) return with the
  live stack \<open>[B, A]\<close>: the second loop of \<^verbatim>\<open>Update\<close> takes the pending buffer from
  its back, so B goes in first and A ends on top.
\<close>

theorem push_order_counterexample:
  "Update video_idle
     (Push mode_B False False (Pop False False (Push mode_A False False (engine_at_rest [mode_X]))))
   = Inr \<lparr>game_stack = [mode_B, mode_A], push_stack = [], pop_count = 0, state_change = False,
          fade_out = False, fade_out_finished = False, fade_in = False,
          trace = [Delete mode_X, Reset mode_A, TransitionalFadeIn 0, ExamineSystemTimers,
                   InitializeUpdateTimer, ModeUpdate mode_A]\<rparr>
   \<and> GetTop \<lparr>game_stack = [mode_B, mode_A], push_stack = [], pop_count = 0, state_change = False,
          fade_out = False, fade_out_finished = False, fade_in = False,
          trace = [Delete mode_X, Reset mode_A, TransitionalFadeIn 0, ExamineSystemTimers,
                   InitializeUpdateTimer, ModeUpdate mode_A]\<rparr> = Some mode_A
   \<and> mode_A \<noteq> mode_B"
  by (simp add: concrete_defs GetTop_def)

text \<open>
  C1, amended. Whenever \<^verbatim>\<open>Update\<close> commits with a pending buffer whose first
  (earliest pushed) entry is \<open>a\<close> and whose later entries are \<open>ps\<close>, it returns, and
  the live stack is what the pops left of the old one, then \<open>ps\<close> from the most
  recently pushed to the oldest, then \<open>a\<close>: the entries arrive in the reverse of the
  order in which they were enqueued, and the entry pushed earliest is the new top.
\<close>

theorem Update_pushes_in_reverse_order:
  assumes "commits v s" and "push_stack s = a # ps"
  shows "\<exists>s'. Update v s = Inr s' \<and>
           game_stack s' =
             take (length (game_stack s) - unat (pop_count s)) (game_stack s) @ rev ps @ [a] \<and>
           GetTop s' = Some a"
proof -
  have sa: "stack_after s =
      take (length (game_stack s) - unat (pop_count s)) (game_stack s) @ rev ps @ [a]"
    using assms(2) by (simp add: stack_after_def)
  then have ne: "stack_after s \<noteq> []" by simp
  show ?thesis
    using Update_commits_Inr[OF assms(1) ne] sa by (simp add: GetTop_def)
qed

text \<open>
  The amended C1 at a concrete input: \<^verbatim>\<open>Push(A); Push(B); Update()\<close> on the live
  stack \<open>[X]\<close> gives \<open>[X, B, A]\<close> with A on top.
\<close>

theorem Update_pushes_in_reverse_order_witness:
  "commits video_idle (Push mode_B False False (Push mode_A False False (engine_at_rest [mode_X])))
   \<and> push_stack (Push mode_B False False (Push mode_A False False (engine_at_rest [mode_X])))
       = mode_A # [mode_B]
   \<and> (\<exists>s'. Update video_idle
               (Push mode_B False False (Push mode_A False False (engine_at_rest [mode_X]))) = Inr s'
          \<and> game_stack s' = [mode_X, mode_B, mode_A] \<and> GetTop s' = Some mode_A)"
proof -
  let ?s = "Push mode_B False False (Push mode_A False False (engine_at_rest [mode_X]))"
  have c: "commits video_idle ?s"
    by (simp add: commits_def Push_def engine_at_rest_def ModeEngine_ctor_def Let_def)
  have p: "push_stack ?s = mode_A # [mode_B]"
    by (simp add: Push_def engine_at_rest_def ModeEngine_ctor_def Let_def)
  have g: "take (length (game_stack ?s) - unat (pop_count ?s)) (game_stack ?s) = [mode_X]"
    by (simp add: Push_def engine_at_rest_def ModeEngine_ctor_def Let_def)
  from Update_pushes_in_reverse_order[OF c p] g c p show ?thesis by simp
qed

subsection \<open>C2: the empty live stack\<close>

text \<open>
  C2: when the live stack is empty after the pops and pushes, \<^verbatim>\<open>Update\<close> requests
  exit and does nothing more in this frame. The code at the live stack \<open>[A]\<close> after
  \<^verbatim>\<open>Pop(false, false)\<close>: A is deleted, the warning is printed and \<^verbatim>\<open>ExitGame\<close> is
  called, but the function does not return there; it goes on to
  \<^verbatim>\<open>_game_stack.back()->Reset()\<close> on the empty vector. The source comment above the
  test names the segmentation fault that the test was to prevent.
\<close>

theorem Update_empty_stack_falls_through:
  "Update v (Pop False False (engine_at_rest [mode_A]))
   = Inl (back_of_empty_vector,
          \<lparr>game_stack = [], push_stack = [], pop_count = 0, state_change = True,
           fade_out = False, fade_out_finished = True, fade_in = False,
           trace = [Delete mode_A,
                    PRINT_WARNING ''game stack is empty, exiting application'', ExitGame]\<rparr>)"
  by (simp add: concrete_defs)

subsection \<open>C3: \<^verbatim>\<open>PopAll\<close>\<close>

text \<open>
  C3: after \<^verbatim>\<open>PopAll()\<close>, the next \<^verbatim>\<open>Update()\<close> removes every live mode and, with
  nothing pending, requests exit. The code at an engine at rest with live stack \<open>[A]\<close>:
  \<^verbatim>\<open>PopAll\<close> sets the counter to 1 and nothing else (\<^verbatim>\<open>Pop\<close> also sets
  \<^verbatim>\<open>_state_change\<close> and the fade flags), so the next \<^verbatim>\<open>Update\<close>, whatever the
  video engine answers, does not commit: A stays live and is updated, no exit is
  requested, and the counter stays at 1.
\<close>

theorem PopAll_alone_is_not_committed:
  "Update v (PopAll (engine_at_rest [mode_A]))
   = Inr \<lparr>game_stack = [mode_A], push_stack = [], pop_count = 1, state_change = False,
          fade_out = False, fade_out_finished = False, fade_in = False,
          trace = [ModeUpdate mode_A]\<rparr>"
  by (simp add: concrete_defs)

subsection \<open>C4: lookups by index\<close>

text \<open>
  C4: \<^verbatim>\<open>Get(index)\<close> and \<^verbatim>\<open>GetGameType(index)\<close> never throw. The code at index 0,
  on every live stack: the guard \<^verbatim>\<open>size() < index\<close> lets 0 through and
  \<^verbatim>\<open>at(size() - 0)\<close> is one past the last element, so both functions throw
  \<^verbatim>\<open>std::out_of_range\<close>; so they do on the one-element stack \<open>[A]\<close>.
\<close>

theorem Get_index_zero_throws:
  "Get s 0 = Inl out_of_range \<and> GetGameType_index s 0 = Inl out_of_range
   \<and> Get (engine_at_rest [mode_A]) 0 = Inl out_of_range"
  by (simp add: Get_def GetGameType_index_def vector_at_def)

subsection \<open>C5: more pops than modes\<close>

text \<open>
  C5: excess pops are logged, the counter is reset, the loop stops early, and the
  excess is recovered from rather than a crash. The code at the live stack \<open>[A]\<close>
  after two calls of \<^verbatim>\<open>Pop(false, false)\<close>: the pop loop does what the claim says (A
  is deleted, the warning is printed once, the counter is reset to 0), but it leaves
  the live stack empty with nothing pending, and \<^verbatim>\<open>Update\<close> then requests exit and
  falls through to \<^verbatim>\<open>_game_stack.back()->Reset()\<close> on the empty vector: the
  missing \<^verbatim>\<open>return\<close> of C2.
\<close>

theorem excess_pops_end_in_empty_back:
  "Update_pop_loop (Pop False False (Pop False False (engine_at_rest [mode_A])))
   = \<lparr>game_stack = [], push_stack = [], pop_count = 0, state_change = True,
      fade_out = False, fade_out_finished = True, fade_in = False,
      trace = [Delete mode_A,
               PRINT_WARNING ''Tried to pop off more game modes than were on the stack!'']\<rparr>
   \<and> Update v (Pop False False (Pop False False (engine_at_rest [mode_A])))
   = Inl (back_of_empty_vector,
          \<lparr>game_stack = [], push_stack = [], pop_count = 0, state_change = True,
           fade_out = False, fade_out_finished = True, fade_in = False,
           trace = [Delete mode_A,
                    PRINT_WARNING ''Tried to pop off more game modes than were on the stack!'',
                    PRINT_WARNING ''game stack is empty, exiting application'', ExitGame]\<rparr>)"
  by (simp add: concrete_defs)

text \<open>
  The part of C5 that the code meets, on every state. The pop loop always ends with the
  pop counter at zero and with the live stack cut by as many modes as the counter
  asked for, or by all of them when it asked for more: it never removes from an empty
  stack and the counter never passes below zero. When the counter exceeds the depth,
  the loop deletes every live mode from the top down, prints the warning once and
  resets the counter. With a push pending, the same \<^verbatim>\<open>Update\<close> returns with the
  pushed modes as the live stack.
\<close>

theorem excess_pops_are_drained:
  "pop_count (Update_pop_loop s) = 0
   \<and> game_stack (Update_pop_loop s)
       = take (length (game_stack s) - unat (pop_count s)) (game_stack s)
   \<and> (length (game_stack s) < unat (pop_count s) \<longrightarrow>
        Update_pop_loop s =
          s\<lparr>trace := trace s @ map Delete (rev (game_stack s)) @
                [PRINT_WARNING ''Tried to pop off more game modes than were on the stack!''],
            game_stack := [], pop_count := 0\<rparr>)
   \<and> (length (game_stack s) < unat (pop_count s) \<and> commits v s \<and> push_stack s \<noteq> [] \<longrightarrow>
        (\<exists>s'. Update v s = Inr s' \<and> game_stack s' = rev (push_stack s) \<and> pop_count s' = 0))"
proof -
  have 1: "pop_count (Update_pop_loop s) = 0"
    by (subst Update_pop_loop_eq) simp
  have 2: "game_stack (Update_pop_loop s)
       = take (length (game_stack s) - unat (pop_count s)) (game_stack s)"
    by (subst Update_pop_loop_eq) simp
  have 3: "Update_pop_loop s =
          s\<lparr>trace := trace s @ map Delete (rev (game_stack s)) @
                [PRINT_WARNING ''Tried to pop off more game modes than were on the stack!''],
            game_stack := [], pop_count := 0\<rparr>"
    if "length (game_stack s) < unat (pop_count s)"
    using that by (subst Update_pop_loop_eq) simp
  have 4: "\<exists>s'. Update v s = Inr s' \<and> game_stack s' = rev (push_stack s) \<and> pop_count s' = 0"
    if "length (game_stack s) < unat (pop_count s)" "commits v s" "push_stack s \<noteq> []"
  proof -
    have sa: "stack_after s = rev (push_stack s)" using that(1) by (simp add: stack_after_def)
    then have ne: "stack_after s \<noteq> []" using that(3) by simp
    show ?thesis using Update_commits_Inr[OF that(2) ne] sa by simp
  qed
  from 1 2 3 4 show ?thesis by blast
qed

text \<open>
  The same at a concrete input: two pops and one push against the live stack \<open>[X]\<close>.
  The loop deletes X and warns once, and \<^verbatim>\<open>Update\<close> returns with the live stack
  \<open>[A]\<close>.
\<close>

theorem excess_pops_are_drained_witness:
  "length (game_stack (Pop False False (Pop False False (Push mode_A False False (engine_at_rest [mode_X])))))
     < unat (pop_count (Pop False False (Pop False False (Push mode_A False False (engine_at_rest [mode_X])))))
   \<and> commits video_idle (Pop False False (Pop False False (Push mode_A False False (engine_at_rest [mode_X]))))
   \<and> push_stack (Pop False False (Pop False False (Push mode_A False False (engine_at_rest [mode_X])))) \<noteq> []
   \<and> trace (Update_pop_loop (Pop False False (Pop False False (Push mode_A False False (engine_at_rest [mode_X])))))
       = [Delete mode_X, PRINT_WARNING ''Tried to pop off more game modes than were on the stack!'']
   \<and> (\<exists>s'. Update video_idle
              (Pop False False (Pop False False (Push mode_A False False (engine_at_rest [mode_X])))) = Inr s'
          \<and> game_stack s' = [mode_A] \<and> pop_count s' = 0)"
proof -
  let ?s = "Pop False False (Pop False False (Push mode_A False False (engine_at_rest [mode_X])))"
  have f: "game_stack ?s = [mode_X]" "pop_count ?s = 2" "push_stack ?s = [mode_A]" "trace ?s = []"
    by (simp_all add: Push_def Pop_def engine_at_rest_def ModeEngine_ctor_def Let_def)
  have l: "length (game_stack ?s) < unat (pop_count ?s)" by (simp add: f)
  have c: "commits video_idle ?s"
    by (simp add: commits_def Push_def Pop_def engine_at_rest_def ModeEngine_ctor_def Let_def)
  have p: "push_stack ?s \<noteq> []" by (simp add: f)
  have t: "trace (Update_pop_loop ?s)
       = [Delete mode_X, PRINT_WARNING ''Tried to pop off more game modes than were on the stack!'']"
    using excess_pops_are_drained[of ?s video_idle] l by (simp add: f)
  have u: "\<exists>s'. Update video_idle ?s = Inr s' \<and> game_stack s' = [mode_A] \<and> pop_count s' = 0"
    using excess_pops_are_drained[of ?s video_idle] l c p by (simp add: f)
  from l c p t u show ?thesis by blast
qed

subsection \<open>C6: pops before pushes\<close>

text \<open>
  C6, as stated, fails in its last part. The claim: pops are applied before pushes, a
  pop requested after a push removes the top of the live stack as it was before the
  push, and enough pops in the same frame can exceed the old depth and empty the stack
  even when pushes are pending. At the live stack \<open>[X]\<close>, \<^verbatim>\<open>Push(A)\<close> followed by
  two pops: the pops delete X and the excess is warned about, then A is pushed; the
  live stack after the reconciliation is \<open>[A]\<close>, and no exit is requested.
\<close>

theorem pops_cannot_empty_pending_pushes_counterexample:
  "Update video_idle
     (Pop False False (Pop False False (Push mode_A False False (engine_at_rest [mode_X]))))
   = Inr \<lparr>game_stack = [mode_A], push_stack = [], pop_count = 0, state_change = False,
          fade_out = False, fade_out_finished = False, fade_in = False,
          trace = [Delete mode_X,
                   PRINT_WARNING ''Tried to pop off more game modes than were on the stack!'',
                   Reset mode_A, TransitionalFadeIn 0, ExamineSystemTimers,
                   InitializeUpdateTimer, ModeUpdate mode_A]\<rparr>"
  by (simp add: concrete_defs)

text \<open>
  C6, amended. Whenever \<^verbatim>\<open>Update\<close> commits with a push pending, it returns; the live
  stack is the old one less the popped modes, followed by the pushed modes, so every
  pop is taken from the stack as it was before the pushes and never from a pushed mode;
  when the pops reach or exceed the old depth every old mode is gone and the pushed
  modes alone remain. The live stack is then not empty and no exit is requested. The
  calls made are, in this order: the deletions of the popped modes from the top down,
  the excess-pop warning exactly when the counter exceeds the old depth, and then the
  reset, fade-in, timer calls and update for the new top, the mode pushed earliest.
\<close>

theorem pops_resolved_before_pushes:
  assumes "commits v s" and "push_stack s \<noteq> []"
  shows "\<exists>s'. Update v s = Inr s' \<and>
           game_stack s' =
             take (length (game_stack s) - unat (pop_count s)) (game_stack s) @ rev (push_stack s) \<and>
           (length (game_stack s) \<le> unat (pop_count s) \<longrightarrow> game_stack s' = rev (push_stack s)) \<and>
           game_stack s' \<noteq> [] \<and>
           ExitGame \<notin> set (drop (length (trace s)) (trace s')) \<and>
           trace s' =
             trace s
             @ map Delete (rev (drop (length (game_stack s) - unat (pop_count s)) (game_stack s)))
             @ (if length (game_stack s) < unat (pop_count s)
                then [PRINT_WARNING ''Tried to pop off more game modes than were on the stack!'']
                else [])
             @ [Reset (hd (push_stack s)),
                TransitionalFadeIn (if fade_in s then FADE_IN_OUT_TIME else 0),
                ExamineSystemTimers, InitializeUpdateTimer, ModeUpdate (hd (push_stack s))]"
proof -
  have ne: "stack_after s \<noteq> []" using assms(2) by (simp add: stack_after_def)
  have ex: "ExitGame \<notin> set (pop_events s)" by (auto simp: pop_events_def)
  have l: "last (stack_after s) = hd (push_stack s)"
    using assms(2) by (simp add: stack_after_def last_rev)
  show ?thesis
    using Update_commits_Inr[OF assms(1) ne] ne ex l
    by (simp add: stack_after_def pop_events_def)
qed

text \<open>
  The amended C6 at two concrete inputs, on the live stack \<open>[X, B]\<close>:
  \<^verbatim>\<open>Push(A); Pop(); Update()\<close> removes B, the top before the push, and leaves
  \<open>[X, A]\<close> without a warning; \<^verbatim>\<open>Push(A)\<close> followed by three pops removes B and X,
  warns once, and leaves \<open>[A]\<close>.
\<close>

theorem pops_resolved_before_pushes_witness:
  "commits video_idle (Pop False False (Push mode_A False False (engine_at_rest [mode_X, mode_B])))
   \<and> push_stack (Pop False False (Push mode_A False False (engine_at_rest [mode_X, mode_B]))) \<noteq> []
   \<and> (\<exists>s'. Update video_idle
              (Pop False False (Push mode_A False False (engine_at_rest [mode_X, mode_B]))) = Inr s'
          \<and> game_stack s' = [mode_X, mode_A]
          \<and> trace s' = [Delete mode_B, Reset mode_A, TransitionalFadeIn 0, ExamineSystemTimers,
                         InitializeUpdateTimer, ModeUpdate mode_A])
   \<and> commits video_idle
        (Pop False False (Pop False False (Pop False False
           (Push mode_A False False (engine_at_rest [mode_X, mode_B])))))
   \<and> (\<exists>s'. Update video_idle
              (Pop False False (Pop False False (Pop False False
                 (Push mode_A False False (engine_at_rest [mode_X, mode_B]))))) = Inr s'
          \<and> game_stack s' = [mode_A]
          \<and> trace s' = [Delete mode_B, Delete mode_X,
                         PRINT_WARNING ''Tried to pop off more game modes than were on the stack!'',
                         Reset mode_A, TransitionalFadeIn 0, ExamineSystemTimers,
                         InitializeUpdateTimer, ModeUpdate mode_A])"
proof -
  let ?s = "Pop False False (Push mode_A False False (engine_at_rest [mode_X, mode_B]))"
  let ?t = "Pop False False (Pop False False (Pop False False
           (Push mode_A False False (engine_at_rest [mode_X, mode_B]))))"
  have f: "trace ?s = []" "fade_in ?s = False" "trace ?t = []" "fade_in ?t = False"
    by (simp_all add: Push_def Pop_def Let_def)
  have c: "commits video_idle ?s" by (simp add: commits_def)
  have p: "push_stack ?s \<noteq> []" by simp
  have c': "commits video_idle ?t" by (simp add: commits_def)
  have p': "push_stack ?t \<noteq> []" by simp
  from pops_resolved_before_pushes[OF c p]
  have 1: "\<exists>s'. Update video_idle ?s = Inr s'
          \<and> game_stack s' = [mode_X, mode_A]
          \<and> trace s' = [Delete mode_B, Reset mode_A, TransitionalFadeIn 0, ExamineSystemTimers,
                         InitializeUpdateTimer, ModeUpdate mode_A]"
    by (auto simp: f)
  from pops_resolved_before_pushes[OF c' p']
  have 2: "\<exists>s'. Update video_idle ?t = Inr s'
          \<and> game_stack s' = [mode_A]
          \<and> trace s' = [Delete mode_B, Delete mode_X,
                         PRINT_WARNING ''Tried to pop off more game modes than were on the stack!'',
                         Reset mode_A, TransitionalFadeIn 0, ExamineSystemTimers,
                         InitializeUpdateTimer, ModeUpdate mode_A]"
    by (auto simp: f)
  from c p 1 c' 2 show ?thesis by blast
qed

subsection \<open>C7: the fade-out gates the commit\<close>

text \<open>
  C7. After \<^verbatim>\<open>Push\<close> or \<^verbatim>\<open>Pop\<close> with \<^verbatim>\<open>fade_out = true\<close>, any number of frames in
  which the video engine reports a fade in progress all return and leave the live
  stack, and so its top, as it was. After \<^verbatim>\<open>Push\<close> or \<^verbatim>\<open>Pop\<close> with
  \<^verbatim>\<open>fade_out = false\<close> the fade-out is marked finished, and the very next
  \<^verbatim>\<open>Update\<close>, whatever the video engine reports, applies the pending pops and pushes
  to the live stack.
\<close>

theorem fade_out_gates_the_commit:
  "((\<forall>v \<in> set vs. IsFading v) \<longrightarrow>
      (\<exists>s'. Update_frames vs (Push gm True fi s) = Inr s' \<and>
             game_stack s' = game_stack s \<and> GetTop s' = GetTop s) \<and>
      (\<exists>s'. Update_frames vs (Pop True fi s) = Inr s' \<and>
             game_stack s' = game_stack s \<and> GetTop s' = GetTop s))
   \<and> fade_out_finished (Push gm False fi s) \<and> fade_out_finished (Pop False fi s)
   \<and> (\<exists>s'. Update v (Push gm False fi s) = Inr s' \<and>
            game_stack s' =
              take (length (game_stack s) - unat (pop_count s)) (game_stack s)
              @ gm # rev (push_stack s))
   \<and> game_stack (engine_of (Update v (Pop False fi s))) =
       take (length (game_stack s) - unat (pop_count s + 1)) (game_stack s) @ rev (push_stack s)"
proof (intro conjI impI)
  assume f: "\<forall>v \<in> set vs. IsFading v"
  have "\<not> fade_out_finished (Push gm True fi s)" by simp
  from Update_frames_wait_while_fading[OF this f] obtain s' where
    "Update_frames vs (Push gm True fi s) = Inr s'" "game_stack s' = game_stack s" by auto
  then show "\<exists>s'. Update_frames vs (Push gm True fi s) = Inr s' \<and>
             game_stack s' = game_stack s \<and> GetTop s' = GetTop s"
    using GetTop_cong[of s' s] by simp
  have "\<not> fade_out_finished (Pop True fi s)" by simp
  from Update_frames_wait_while_fading[OF this f] obtain s' where
    "Update_frames vs (Pop True fi s) = Inr s'" "game_stack s' = game_stack s" by auto
  then show "\<exists>s'. Update_frames vs (Pop True fi s) = Inr s' \<and>
             game_stack s' = game_stack s \<and> GetTop s' = GetTop s"
    using GetTop_cong[of s' s] by simp
next
  show "fade_out_finished (Push gm False fi s)" by simp
next
  show "fade_out_finished (Pop False fi s)" by simp
next
  let ?p = "Push gm False fi s"
  have cm: "commits v ?p" by (simp add: commits_def)
  have sa: "stack_after ?p = take (length (game_stack s) - unat (pop_count s)) (game_stack s)
              @ gm # rev (push_stack s)"
    by (simp add: stack_after_def)
  then have ne: "stack_after ?p \<noteq> []" by simp
  show "\<exists>s'. Update v ?p = Inr s' \<and>
            game_stack s' =
              take (length (game_stack s) - unat (pop_count s)) (game_stack s)
              @ gm # rev (push_stack s)"
    using Update_commits_Inr[OF cm ne] sa by simp
next
  let ?p = "Pop False fi s"
  have cm: "commits v ?p" by (simp add: commits_def)
  show "game_stack (engine_of (Update v ?p)) =
       take (length (game_stack s) - unat (pop_count s + 1)) (game_stack s) @ rev (push_stack s)"
    using Update_stack_when_commits[OF cm] by (simp add: stack_after_def)
qed

text \<open>
  C7 at concrete inputs: the live stack \<open>[A, B]\<close> is unchanged through two fading
  frames after \<^verbatim>\<open>Pop(true, true)\<close>; the live stack \<open>[A]\<close> becomes \<open>[A, B]\<close> in the
  frame after \<^verbatim>\<open>Push(B, false, false)\<close>.
\<close>

theorem fade_out_gates_the_commit_witness:
  "IsFading video_fading
   \<and> (\<exists>s'. Update_frames [video_fading, video_fading]
              (Pop True True (engine_at_rest [mode_A, mode_B])) = Inr s'
          \<and> game_stack s' = [mode_A, mode_B] \<and> GetTop s' = Some mode_B)
   \<and> (\<exists>s'. Update video_idle (Push mode_B False False (engine_at_rest [mode_A])) = Inr s'
          \<and> game_stack s' = [mode_A, mode_B])"
proof -
  have i: "IsFading video_fading"
    by (simp add: video_fading_def)
  then have h: "\<forall>v \<in> set [video_fading, video_fading]. IsFading v"
    by simp
  have g: "game_stack (engine_at_rest [mode_A, mode_B]) = [mode_A, mode_B]"
    "GetTop (engine_at_rest [mode_A, mode_B]) = Some mode_B"
    "game_stack (engine_at_rest [mode_A]) = [mode_A]"
    "pop_count (engine_at_rest [mode_A]) = 0"
    "push_stack (engine_at_rest [mode_A]) = []"
    by (simp_all add: engine_at_rest_def ModeEngine_ctor_def GetTop_def)
  note t1 = fade_out_gates_the_commit[of "[video_fading, video_fading]" mode_B True
      "engine_at_rest [mode_A, mode_B]" video_idle]
  from t1 h
  have 1: "\<exists>s'. Update_frames [video_fading, video_fading]
              (Pop True True (engine_at_rest [mode_A, mode_B])) = Inr s'
          \<and> game_stack s' = [mode_A, mode_B] \<and> GetTop s' = Some mode_B"
    unfolding g by blast
  note t2 = fade_out_gates_the_commit[of "[]" mode_B False "engine_at_rest [mode_A]" video_idle]
  from t2
  have 2: "\<exists>s'. Update video_idle (Push mode_B False False (engine_at_rest [mode_A])) = Inr s'
          \<and> game_stack s' = [mode_A, mode_B]"
    unfolding g by simp
  from i 1 2 show ?thesis by blast
qed

subsection \<open>C8: when \<^verbatim>\<open>Reset\<close> is called\<close>

text \<open>
  C8, as stated, fails. The claim: \<^verbatim>\<open>Reset\<close> is invoked once per committed mutation
  that makes a mode the new top, and never on a mode that was already top. The commit
  calls \<^verbatim>\<open>_game_stack.back()->Reset()\<close> without comparing the top with the one
  before. On the live stack \<open>[A]\<close>, 4294967296 calls of \<^verbatim>\<open>Pop(false, false)\<close> wrap the
  \<^verbatim>\<open>uint32\<close> counter to 0 and leave a state change pending; the next \<^verbatim>\<open>Update\<close>
  commits, pops and pushes nothing, and resets A, which was on top already.
\<close>

theorem Reset_of_unchanged_top_counterexample:
  "GetTop (issue_all (replicate 4294967296 (PopRequest False False)) (engine_at_rest [mode_A]))
     = Some mode_A
   \<and> Update video_idle
       (issue_all (replicate 4294967296 (PopRequest False False)) (engine_at_rest [mode_A]))
     = Inr \<lparr>game_stack = [mode_A], push_stack = [], pop_count = 0, state_change = False,
            fade_out = False, fade_out_finished = False, fade_in = False,
            trace = [Reset mode_A, TransitionalFadeIn 0, ExamineSystemTimers,
                     InitializeUpdateTimer, ModeUpdate mode_A]\<rparr>"
  unfolding wrapped_pops by (simp add: concrete_defs GetTop_def)

text \<open>
  C8, amended. In a call of \<^verbatim>\<open>Update\<close> that returns, the calls added to the trace
  contain exactly one \<^verbatim>\<open>Reset\<close> when the call commits, and none when it does not.
  When it commits, the live stack is the old one less the popped modes, followed by
  the pending buffer from its back to its front, and the mode reset is the top of that
  stack, whether or not the commit changed the top: with nothing to pop and nothing to
  push the top is the one it was, and it is reset all the same. When the call does
  not commit, the live stack and its top are the ones they were.
\<close>

theorem Reset_once_per_commit:
  assumes "Update v s = Inr s'"
  shows "\<exists>new. trace s' = trace s @ new \<and>
           (commits v s \<longrightarrow>
              game_stack s' =
                take (length (game_stack s) - unat (pop_count s)) (game_stack s)
                @ rev (push_stack s) \<and>
              game_stack s' \<noteq> [] \<and>
              GetTop s' = Some (last (game_stack s')) \<and>
              filter is_Reset new = [Reset (last (game_stack s'))]) \<and>
           (commits v s \<and> pop_count s = 0 \<and> push_stack s = [] \<longrightarrow> GetTop s' = GetTop s) \<and>
           (\<not> commits v s \<longrightarrow>
              filter is_Reset new = [] \<and> game_stack s' = game_stack s \<and> GetTop s' = GetTop s)"
proof (cases "commits v s")
  case False
  from Update_idle[OF False] assms False show ?thesis
    by (auto simp: GetTop_def)
next
  case True
  have ne: "stack_after s \<noteq> []"
  proof
    assume "stack_after s = []"
    from Update_commits_Inl[OF True this] assms show False by simp
  qed
  from Update_commits_Inr[OF True ne] assms
  have s': "s' = (fade_checked v s)\<lparr>trace := trace s @ pop_events s @
                 [Reset (last (stack_after s)),
                  TransitionalFadeIn (if fade_in s then FADE_IN_OUT_TIME else 0),
                  ExamineSystemTimers, InitializeUpdateTimer,
                  ModeUpdate (last (stack_after s))],
            game_stack := stack_after s, push_stack := [], pop_count := 0,
            state_change := False, fade_out_finished := False\<rparr>" by simp
  have gs: "game_stack s' = stack_after s" by (simp add: s')
  have t: "trace s' = trace s @ (pop_events s @
                 [Reset (last (game_stack s')),
                  TransitionalFadeIn (if fade_in s then FADE_IN_OUT_TIME else 0),
                  ExamineSystemTimers, InitializeUpdateTimer,
                  ModeUpdate (last (game_stack s'))])"
    unfolding gs by (simp add: s')
  have g: "GetTop s' = Some (last (game_stack s'))"
    using ne gs by (simp add: GetTop_def)
  have f: "filter is_Reset (pop_events s @
                 [Reset (last (game_stack s')),
                  TransitionalFadeIn (if fade_in s then FADE_IN_OUT_TIME else 0),
                  ExamineSystemTimers, InitializeUpdateTimer,
                  ModeUpdate (last (game_stack s'))]) = [Reset (last (game_stack s'))]"
    by (simp add: no_Reset_in_pop_events)
  have e: "game_stack s' =
                take (length (game_stack s) - unat (pop_count s)) (game_stack s)
                @ rev (push_stack s)"
    using gs by (simp add: stack_after_def)
  have ne': "game_stack s' \<noteq> []" using ne gs by simp
  have u: "GetTop s' = GetTop s" if "pop_count s = 0" "push_stack s = []"
    using e that by (simp add: GetTop_def)
  from t g f e ne' u True show ?thesis by blast
qed

text \<open>
  The amended C8 at two concrete inputs on the live stack \<open>[A, B]\<close>: the frame after
  \<^verbatim>\<open>Pop(false, true)\<close> commits and resets A once; a fading frame after
  \<^verbatim>\<open>Pop(true, true)\<close> does not commit and resets nothing.
\<close>

theorem Reset_once_per_commit_witness:
  "Update video_idle (Pop False True (engine_at_rest [mode_A, mode_B]))
     = Inr \<lparr>game_stack = [mode_A], push_stack = [], pop_count = 0, state_change = False,
            fade_out = False, fade_out_finished = False, fade_in = True,
            trace = [Delete mode_B, Reset mode_A, TransitionalFadeIn 800, ExamineSystemTimers,
                     InitializeUpdateTimer, ModeUpdate mode_A]\<rparr>
   \<and> commits video_idle (Pop False True (engine_at_rest [mode_A, mode_B]))
   \<and> filter is_Reset [Delete mode_B, Reset mode_A, TransitionalFadeIn 800, ExamineSystemTimers,
              InitializeUpdateTimer, ModeUpdate mode_A] = [Reset mode_A]
   \<and> Update video_fading (Pop True True (engine_at_rest [mode_A, mode_B]))
     = Inr \<lparr>game_stack = [mode_A, mode_B], push_stack = [], pop_count = 1, state_change = True,
            fade_out = True, fade_out_finished = False, fade_in = True,
            trace = [StartTransitionFadeOut 800, ModeUpdate mode_B]\<rparr>
   \<and> \<not> commits video_fading (Pop True True (engine_at_rest [mode_A, mode_B]))
   \<and> filter is_Reset [ModeUpdate mode_B] = []"
proof -
  let ?s = "Pop False True (engine_at_rest [mode_A, mode_B])"
  let ?s' = "\<lparr>game_stack = [mode_A], push_stack = [], pop_count = 0, state_change = False,
            fade_out = False, fade_out_finished = False, fade_in = True,
            trace = [Delete mode_B, Reset mode_A, TransitionalFadeIn 800, ExamineSystemTimers,
                     InitializeUpdateTimer, ModeUpdate mode_A]\<rparr>"
  let ?t = "Pop True True (engine_at_rest [mode_A, mode_B])"
  let ?t' = "\<lparr>game_stack = [mode_A, mode_B], push_stack = [], pop_count = 1, state_change = True,
            fade_out = True, fade_out_finished = False, fade_in = True,
            trace = [StartTransitionFadeOut 800, ModeUpdate mode_B]\<rparr>"
  have u: "Update video_idle ?s = Inr ?s'"
    by (simp add: concrete_defs)
  have c: "commits video_idle ?s" by (simp add: commits_def)
  have ts: "trace ?s = []" by (simp add: Pop_def Let_def)
  have u2: "Update video_fading ?t = Inr ?t'"
    by (simp add: concrete_defs)
  have c2: "\<not> commits video_fading ?t" by (simp add: commits_def video_fading_def)
  have tt: "trace ?t = [StartTransitionFadeOut 800]"
    by (simp add: Pop_def Let_def FADE_IN_OUT_TIME_def)
  from Reset_once_per_commit[OF u] c
  have 1: "filter is_Reset [Delete mode_B, Reset mode_A, TransitionalFadeIn 800,
              ExamineSystemTimers, InitializeUpdateTimer, ModeUpdate mode_A] = [Reset mode_A]"
    by (auto simp: ts)
  from Reset_once_per_commit[OF u2] c2
  have 2: "filter is_Reset [ModeUpdate mode_B] = []"
    by (auto simp: tt)
  from u c 1 u2 c2 2 show ?thesis by blast
qed

subsection \<open>C9: the last request of a batch decides the transition state\<close>

text \<open>
  C9. After any sequence of \<^verbatim>\<open>Push\<close> and \<^verbatim>\<open>Pop\<close> calls, the three transition
  members are what the last call alone sets: fade-out in progress is its
  \<^verbatim>\<open>fade_out\<close> argument, fade-out finished is the negation, and the fade-in flag is
  its \<^verbatim>\<open>fade_in\<close> argument, whatever the earlier calls and the earlier state were.
  If the last call has \<^verbatim>\<open>fade_out = false\<close>, the next \<^verbatim>\<open>Update\<close> commits whatever
  the video engine reports, and applies the pops and pushes of the whole sequence.
\<close>

theorem last_request_decides_transition_state:
  "fade_out (issue_all (rs @ [r]) s) = request_fade_out r
   \<and> fade_out_finished (issue_all (rs @ [r]) s) = (\<not> request_fade_out r)
   \<and> fade_in (issue_all (rs @ [r]) s) = request_fade_in r
   \<and> (\<not> request_fade_out r \<longrightarrow>
        commits v (issue_all (rs @ [r]) s) \<and>
        game_stack (engine_of (Update v (issue_all (rs @ [r]) s))) =
          take (length (game_stack s) - unat (pop_count s + of_nat (requested_pops (rs @ [r]))))
            (game_stack s)
          @ rev (push_stack s @ requested_modes (rs @ [r])))"
proof (intro conjI impI)
  show "fade_out (issue_all (rs @ [r]) s) = request_fade_out r"
    by (simp add: issue_all_snoc)
  show "fade_out_finished (issue_all (rs @ [r]) s) = (\<not> request_fade_out r)"
    by (simp add: issue_all_snoc)
  show "fade_in (issue_all (rs @ [r]) s) = request_fade_in r"
    by (simp add: issue_all_snoc)
next
  assume nf: "\<not> request_fade_out r"
  show c: "commits v (issue_all (rs @ [r]) s)"
    using nf by (simp add: commits_def issue_all_snoc)
  have "stack_after (issue_all (rs @ [r]) s) =
      take (length (game_stack s) - unat (pop_count s + of_nat (requested_pops (rs @ [r]))))
            (game_stack s)
          @ rev (push_stack s @ requested_modes (rs @ [r]))"
    unfolding stack_after_def using issue_all_fields[of "rs @ [r]" s] by simp
  with Update_stack_when_commits[OF c]
  show "game_stack (engine_of (Update v (issue_all (rs @ [r]) s))) =
          take (length (game_stack s) - unat (pop_count s + of_nat (requested_pops (rs @ [r]))))
            (game_stack s)
          @ rev (push_stack s @ requested_modes (rs @ [r]))"
    by simp
qed

text \<open>
  C9 at a concrete input: \<^verbatim>\<open>Pop(true, true); Push(B, false, false)\<close> on the live
  stack \<open>[X, A]\<close>, then an \<^verbatim>\<open>Update\<close> while the earlier fade is still reported
  active: the batch is committed, the live stack is \<open>[X, B]\<close>.
\<close>

theorem last_request_decides_transition_state_witness:
  "\<not> request_fade_out (PushRequest mode_B False False)
   \<and> fade_out_finished
       (issue_all [PopRequest True True, PushRequest mode_B False False] (engine_at_rest [mode_X, mode_A]))
   \<and> game_stack (engine_of (Update video_fading
       (issue_all [PopRequest True True, PushRequest mode_B False False]
          (engine_at_rest [mode_X, mode_A]))))
       = [mode_X, mode_B]"
proof -
  have h: "\<not> request_fade_out (PushRequest mode_B False False)" by simp
  have g: "game_stack (engine_at_rest [mode_X, mode_A]) = [mode_X, mode_A]"
    "pop_count (engine_at_rest [mode_X, mode_A]) = 0"
    "push_stack (engine_at_rest [mode_X, mode_A]) = []"
    by (simp_all add: engine_at_rest_def ModeEngine_ctor_def)
  from last_request_decides_transition_state[of "[PopRequest True True]"
      "PushRequest mode_B False False" "engine_at_rest [mode_X, mode_A]" video_fading] h
  show ?thesis by (simp add: g)
qed

subsection \<open>C10: tags and modes\<close>

text \<open>
  C10, as stated, fails. The claim: \<^verbatim>\<open>GetGameType\<close> returns the dummy tag exactly when
  \<^verbatim>\<open>GetTop\<close> (or \<^verbatim>\<open>Get\<close>, by index) returns null. A mode built by the default
  constructor carries the dummy tag itself: with such a mode as the only live one, both
  tag lookups return the dummy tag while both mode lookups return the mode.
\<close>

theorem dummy_tag_without_null_counterexample:
  "GetGameType (engine_at_rest [mode_D]) = MODE_MANAGER_DUMMY_MODE
   \<and> GetTop (engine_at_rest [mode_D]) = Some mode_D
   \<and> GetGameType_index (engine_at_rest [mode_D]) 1 = Inr MODE_MANAGER_DUMMY_MODE
   \<and> Get (engine_at_rest [mode_D]) 1 = Inr (Some mode_D)"
  by (simp add: GetGameType_def GetTop_def GetGameType_index_def Get_def vector_at_def
      engine_at_rest_def ModeEngine_ctor_def mode_D_def GameMode_default_def)

text \<open>
  C10, amended. \<^verbatim>\<open>GetGameType()\<close> is the dummy tag when \<^verbatim>\<open>GetTop()\<close> is null and
  the tag of the mode \<^verbatim>\<open>GetTop()\<close> returns otherwise; and for every index at which
  \<^verbatim>\<open>Get(index)\<close> returns, \<^verbatim>\<open>GetGameType(index)\<close> returns the dummy tag when
  \<^verbatim>\<open>Get\<close> returned null and the tag of the returned mode otherwise.
\<close>

theorem GetGameType_follows_Get:
  "GetGameType s = (case GetTop s of None \<Rightarrow> MODE_MANAGER_DUMMY_MODE | Some gm \<Rightarrow> mode_type gm)
   \<and> (Get s i = Inr r \<longrightarrow>
        GetGameType_index s i =
          Inr (case r of None \<Rightarrow> MODE_MANAGER_DUMMY_MODE | Some gm \<Rightarrow> mode_type gm))"
  by (auto simp: GetGameType_def GetTop_def GetGameType_index_def Get_def
      split: if_splits sum.splits)

text \<open>
  The amended C10 at concrete inputs: on the live stack \<open>[X, A]\<close>, index 2 gives X and
  its tag, index 3 gives null and the dummy tag.
\<close>

theorem GetGameType_follows_Get_witness:
  "Get (engine_at_rest [mode_X, mode_A]) 2 = Inr (Some mode_X)
   \<and> GetGameType_index (engine_at_rest [mode_X, mode_A]) 2 = Inr (mode_type mode_X)
   \<and> Get (engine_at_rest [mode_X, mode_A]) 3 = Inr None
   \<and> GetGameType_index (engine_at_rest [mode_X, mode_A]) 3 = Inr MODE_MANAGER_DUMMY_MODE"
proof -
  have a: "Get (engine_at_rest [mode_X, mode_A]) 2 = Inr (Some mode_X)"
    by (simp add: Get_def vector_at_def engine_at_rest_def ModeEngine_ctor_def)
  have b: "Get (engine_at_rest [mode_X, mode_A]) 3 = Inr None"
    by (simp add: Get_def vector_at_def engine_at_rest_def ModeEngine_ctor_def)
  from GetGameType_follows_Get[of "engine_at_rest [mode_X, mode_A]" 2 "Some mode_X"] a
  have c: "GetGameType_index (engine_at_rest [mode_X, mode_A]) 2 = Inr (mode_type mode_X)"
    by simp
  from GetGameType_follows_Get[of "engine_at_rest [mode_X, mode_A]" 3 None] b
  have d: "GetGameType_index (engine_at_rest [mode_X, mode_A]) 3 = Inr MODE_MANAGER_DUMMY_MODE"
    by simp
  from a b c d show ?thesis by simp
qed

end
